theory Spec2Isabelle
  imports Complex_Main
begin

section \<open>Distributed evaluation and best-metric selection of \<open>pkot5/klue/finetuning.py\<close>\<close>

text \<open>
  The development embeds the two pieces of logic of \<open>finetuning.py\<close>: the callback
  \<open>Metrics.on_evaluate\<close> (the shard loop, the publication of the shard's result in the
  Redis store under the worker's rank, and the collection of every rank's slot after the
  barrier) and the fold loop of \<open>train\<close> (best-metric selection and the result file).

  What the libraries do is a parameter of the model: \<open>model.generate\<close> is the function
  \<open>generate\<close>, \<open>pickle.dumps\<close> and \<open>pickle.loads\<close> are \<open>dumps\<close> and \<open>loads\<close>,
  \<open>processor.compute_metrics\<close> is a field of the processor, and the metric records that
  \<open>trainer.train()\<close> leaves in \<open>metrics.metrics\<close> are an input of the fold loop.
\<close>

subsection \<open>Errors\<close>

text \<open>
  The exceptions the modelled lines can raise: the \<open>assert\<close> of line 61, \<open>pickle.loads\<close>
  applied to the \<open>None\<close> that \<open>redis.get\<close> returns for a missing key (a \<open>TypeError\<close>),
  \<open>metric[k]\<close> on a key the record lacks, and \<open>best_metric.items()\<close> on \<open>None\<close>. Each
  propagates: the file has no \<open>try\<close>.
\<close>

datatype error = AssertionError | TypeError | KeyError | AttributeError | UnpicklingError

subsection \<open>Rank keys: \<open>f"{rank}"\<close>\<close>

text \<open>Python's decimal rendering of a non-negative integer.\<close>

definition digit_char :: "nat \<Rightarrow> char" where
  "digit_char d = char_of (48 + d)"

function str_nat :: "nat \<Rightarrow> string" where
  "str_nat n = (if n < 10 then [digit_char n] else str_nat (n div 10) @ [digit_char (n mod 10)])"
  by pat_completeness auto
termination
  by (relation "measure id") auto

declare str_nat.simps [simp del]

text \<open>Reading a decimal string back; used only to show that distinct ranks have distinct keys.\<close>

definition digit_val :: "char \<Rightarrow> nat" where
  "digit_val c = of_char c - 48"

definition nat_of_str :: "string \<Rightarrow> nat" where
  "nat_of_str s = foldl (\<lambda>a c. 10 * a + digit_val c) 0 s"

subsection \<open>The shard loop (lines 40 and 48-63)\<close>

text \<open>
  A batch is what the collator yields; \<open>shape[0]\<close> of a tensor is the number of its rows.
  The output of \<open>model.generate\<close> has the generated sequences and one score per sequence.
\<close>

record 't batch =
  input_ids :: "'t list list"
  attention_mask :: "'t list list"

record ('t, 's) generation =
  sequences :: "'t list list"
  sequences_scores :: "'s list"

type_synonym ('t, 's) partial_result = "'t list list \<times> 's list"

fun eval_loop ::
  "string \<Rightarrow> ('t list list \<Rightarrow> 't list list \<Rightarrow> ('t, 's) generation) \<Rightarrow> 't batch list \<Rightarrow>
   ('t, 's) partial_result \<Rightarrow> error + ('t, 's) partial_result" where
  "eval_loop task generate [] (all_logits, all_scores) = Inr (all_logits, all_scores)"
| "eval_loop task generate (data # rest) (all_logits, all_scores) =
     (let output = generate (input_ids data) (attention_mask data);
          logits = sequences output;
          all_scores' = (if task = ''mrc'' \<or> task = ''vinca''
                         then all_scores @ sequences_scores output else all_scores)
      in if length logits = length (input_ids data)
         then eval_loop task generate rest (all_logits @ logits, all_scores')
         else Inl AssertionError)"

subsection \<open>The store, publication and collection (lines 65-71)\<close>

text \<open>
  The Redis store maps a key to the bytes last set there; \<open>get\<close> of a key never set is
  \<open>None\<close>. \<open>dumps\<close> is \<open>pickle.dumps\<close> of the list \<open>[all_logits, all_scores]\<close>; \<open>loads\<close> is
  \<open>pickle.loads\<close> followed by the unpacking \<open>logits, scores = ...\<close>, with its failures.
\<close>

type_synonym 'b redis = "string \<rightharpoonup> 'b"

definition publish ::
  "(('t, 's) partial_result \<Rightarrow> 'b) \<Rightarrow> 'b redis \<Rightarrow> nat \<Rightarrow> ('t, 's) partial_result \<Rightarrow> 'b redis" where
  "publish dumps r rank res = r(str_nat rank \<mapsto> dumps res)"

fun collect_loop ::
  "('b \<Rightarrow> error + ('t, 's) partial_result) \<Rightarrow> 'b redis \<Rightarrow> nat list \<Rightarrow>
   ('t, 's) partial_result \<Rightarrow> error + ('t, 's) partial_result" where
  "collect_loop loads r [] (all_logits, all_scores) = Inr (all_logits, all_scores)"
| "collect_loop loads r (i # rest) (all_logits, all_scores) =
     (case r (str_nat i) of
        None \<Rightarrow> Inl TypeError
      | Some bs \<Rightarrow>
          (case loads bs of
             Inl e \<Rightarrow> Inl e
           | Inr (logits, scores) \<Rightarrow>
               collect_loop loads r rest (all_logits @ logits, all_scores @ scores)))"

definition collect ::
  "('b \<Rightarrow> error + ('t, 's) partial_result) \<Rightarrow> 'b redis \<Rightarrow> nat \<Rightarrow> error + ('t, 's) partial_result" where
  "collect loads r world_size = collect_loop loads r [0..<world_size] ([], [])"

text \<open>
  Every worker publishes once before the barrier; \<open>publish_all\<close> is the store after the
  publications have arrived in the order \<open>arrival\<close>, rank \<open>k\<close> publishing \<open>shards ! k\<close>.
\<close>

definition publish_all ::
  "(('t, 's) partial_result \<Rightarrow> 'b) \<Rightarrow> ('t, 's) partial_result list \<Rightarrow> nat list \<Rightarrow> 'b redis \<Rightarrow> 'b redis" where
  "publish_all dumps shards arrival r = fold (\<lambda>k st. publish dumps st k (shards ! k)) arrival r"

subsection \<open>The callback \<open>on_evaluate\<close>, before and after the barrier\<close>

record ('t, 's, 'e, 'v) processor =
  task :: string
  compute_metrics :: "'t list list \<Rightarrow> 'e \<Rightarrow> 's list option \<Rightarrow> error + (string \<times> 'v) list"

definition on_evaluate_publish ::
  "('t, 's, 'e, 'v) processor \<Rightarrow> ('t list list \<Rightarrow> 't list list \<Rightarrow> ('t, 's) generation) \<Rightarrow>
   't batch list \<Rightarrow> (('t, 's) partial_result \<Rightarrow> 'b) \<Rightarrow> nat \<Rightarrow> 'b redis \<Rightarrow> error + 'b redis" where
  "on_evaluate_publish proc generate batches dumps rank r =
     (case eval_loop (task proc) generate batches ([], []) of
        Inl e \<Rightarrow> Inl e
      | Inr res \<Rightarrow> Inr (publish dumps r rank res))"

text \<open>Lines 72-73: an empty score list is passed as \<open>None\<close>.\<close>

definition output_scores :: "'s list \<Rightarrow> 's list option" where
  "output_scores all_scores = (if length all_scores = 0 then None else Some all_scores)"

definition on_evaluate_collect ::
  "('t, 's, 'e, 'v) processor \<Rightarrow> 'e \<Rightarrow> ('b \<Rightarrow> error + ('t, 's) partial_result) \<Rightarrow> 'b redis \<Rightarrow> nat \<Rightarrow>
   (string \<times> 'v) list list \<Rightarrow> error + (string \<times> 'v) list list" where
  "on_evaluate_collect proc entries loads r world_size metrics =
     (case collect loads r world_size of
        Inl e \<Rightarrow> Inl e
      | Inr (all_logits, all_scores) \<Rightarrow>
          (case compute_metrics proc all_logits entries (output_scores all_scores) of
             Inl e \<Rightarrow> Inl e
           | Inr m \<Rightarrow> Inr (metrics @ [m])))"

subsection \<open>Best-metric selection (lines 134-139)\<close>

text \<open>
  A metric record is a dictionary in insertion order. \<open>any_ge metric best ks\<close> is
  \<open>any(metric[k] >= best_metric[k] for k in ks)\<close>: it stops at the first key that
  succeeds, and a key that \<open>metric\<close> lacks raises before the later keys are looked at.
\<close>

fun any_ge :: "(string \<times> 'v::ord) list \<Rightarrow> (string \<times> 'v) list \<Rightarrow> string list \<Rightarrow> error + bool" where
  "any_ge metric best [] = Inr False"
| "any_ge metric best (k # ks) =
     (case map_of metric k of
        None \<Rightarrow> Inl KeyError
      | Some mv \<Rightarrow>
          (case map_of best k of
             None \<Rightarrow> Inl KeyError
           | Some bv \<Rightarrow> if mv \<ge> bv then Inr True else any_ge metric best ks))"

definition best_step ::
  "(string \<times> 'v::ord) list option \<Rightarrow> (string \<times> 'v) list \<Rightarrow> error + (string \<times> 'v) list option" where
  "best_step best_metric metric =
     (case best_metric of
        None \<Rightarrow> Inr (Some metric)
      | Some best \<Rightarrow>
          (case any_ge metric best (map fst best) of
             Inl e \<Rightarrow> Inl e
           | Inr b \<Rightarrow> Inr (if b then Some metric else best_metric)))"

fun select_best ::
  "(string \<times> 'v::ord) list option \<Rightarrow> (string \<times> 'v) list list \<Rightarrow> error + (string \<times> 'v) list option" where
  "select_best best_metric [] = Inr best_metric"
| "select_best best_metric (metric # rest) =
     (case best_step best_metric metric of
        Inl e \<Rightarrow> Inl e
      | Inr best_metric' \<Rightarrow> select_best best_metric' rest)"

subsection \<open>The fold loop of \<open>train\<close> (lines 99-145)\<close>

text \<open>
  The variables of the loop are the fold counter \<open>i\<close> and \<open>best_metric\<close>; they are lost
  when an exception ends the run. The result files written so far are kept apart, as a
  log of paths and texts, since they outlive the run. \<open>fmt\<close> is Python's rendering of a
  metric value in \<open>f"{k}={v}\n"\<close>. The fold's directory exists when the file is opened:
  \<open>trainer.save_model\<close> has just written to it.
\<close>

record 'v train_state =
  i :: nat
  best_metric :: "(string \<times> 'v) list option"

type_synonym files = "(string \<times> string) list"

definition output_dir :: string where
  "output_dir = ''./models/klue_t5''"

definition result_path :: "nat \<Rightarrow> string \<Rightarrow> string" where
  "result_path n task_name = output_dir @ ''/'' @ str_nat n @ ''/result_'' @ task_name @ ''.txt''"

definition result_text :: "('v \<Rightarrow> string) \<Rightarrow> (string \<times> 'v) list \<Rightarrow> string" where
  "result_text fmt best = concat (map (\<lambda>(k, v). k @ ''='' @ fmt v @ [CHR 0x0A]) best)"

text \<open>
  One fold, from line 134 on: \<open>best_metric\<close> starts at \<open>None\<close> and runs over the records
  of this fold only. On rank 0 the file is opened (and so created, empty) before
  \<open>best_metric.items()\<close> is evaluated, which raises when the fold had no evaluation.
\<close>

definition train_fold ::
  "int \<Rightarrow> string \<Rightarrow> ('v \<Rightarrow> string) \<Rightarrow> (string \<times> 'v::ord) list list \<Rightarrow> files \<Rightarrow> 'v train_state \<Rightarrow>
   files \<times> (error + 'v train_state)" where
  "train_fold local_rank task_name fmt metrics fs st =
     (case select_best None metrics of
        Inl e \<Rightarrow> (fs, Inl e)
      | Inr best \<Rightarrow>
          if local_rank = 0 then
            (case best of
               None \<Rightarrow> (fs @ [(result_path (i st) task_name, [])], Inl AttributeError)
             | Some b \<Rightarrow>
                 (fs @ [(result_path (i st) task_name, result_text fmt b)],
                  Inr \<lparr>i = i st + 1, best_metric = best\<rparr>))
          else (fs, Inr \<lparr>i = i st + 1, best_metric = best\<rparr>))"

fun train_folds ::
  "int \<Rightarrow> string \<Rightarrow> ('v \<Rightarrow> string) \<Rightarrow> (string \<times> 'v::ord) list list list \<Rightarrow> files \<Rightarrow> 'v train_state \<Rightarrow>
   files \<times> (error + 'v train_state)" where
  "train_folds local_rank task_name fmt [] fs st = (fs, Inr st)"
| "train_folds local_rank task_name fmt (metrics # rest) fs st =
     (case train_fold local_rank task_name fmt metrics fs st of
        (fs', Inl e) \<Rightarrow> (fs', Inl e)
      | (fs', Inr st') \<Rightarrow> train_folds local_rank task_name fmt rest fs' st')"

definition train ::
  "int \<Rightarrow> string \<Rightarrow> ('v \<Rightarrow> string) \<Rightarrow> (string \<times> 'v::ord) list list list \<Rightarrow>
   files \<times> (error + 'v train_state)" where
  "train local_rank task_name fmt folds =
     train_folds local_rank task_name fmt folds [] \<lparr>i = 0, best_metric = None\<rparr>"

subsection \<open>The scenario of ten folds\<close>

text \<open>
  Ten folds with one evaluation each: fold 3 yields \<open>{em: 0.80}\<close>, fold 4 yields
  \<open>{em: 0.79}\<close>, every other fold \<open>{em: 0.5}\<close>. \<open>fmt_scenario\<close> is Python's rendering
  of these three values. The values are read as real numbers; the doubles they denote
  compare the same way.
\<close>

definition em_run :: "(string \<times> real) list list list" where
  "em_run =
     [[[(''em'', 0.5)]], [[(''em'', 0.5)]], [[(''em'', 0.5)]],
      [[(''em'', 0.80)]], [[(''em'', 0.79)]],
      [[(''em'', 0.5)]], [[(''em'', 0.5)]], [[(''em'', 0.5)]], [[(''em'', 0.5)]], [[(''em'', 0.5)]]]"

definition fmt_scenario :: "real \<Rightarrow> string" where
  "fmt_scenario v = (if v = 0.80 then ''0.8'' else if v = 0.79 then ''0.79'' else ''0.5'')"

subsection \<open>A shard of two batches\<close>

text \<open>
  Example data: a generator that returns its input rows as the generated sequences, with
  the length of each row as its score, and a shard of two batches (two rows and one row).
\<close>

definition echo :: "nat list list \<Rightarrow> nat list list \<Rightarrow> (nat, int) generation" where
  "echo ids attn = \<lparr>sequences = ids, sequences_scores = map (\<lambda>row. int (length row)) ids\<rparr>"

definition two_batches :: "nat batch list" where
  "two_batches =
     [\<lparr>input_ids = [[1, 2], [3]], attention_mask = [[1, 1], [1]]\<rparr>,
      \<lparr>input_ids = [[4]], attention_mask = [[1]]\<rparr>]"

section \<open>Rank keys are distinct\<close>

lemma digit_val_digit_char: "d < 10 \<Longrightarrow> digit_val (digit_char d) = d"
  by (simp add: digit_val_def digit_char_def)

lemma nat_of_str_str_nat: "nat_of_str (str_nat n) = n"
proof (induction n rule: str_nat.induct)
  case (1 n)
  show ?case
  proof (cases "n < 10")
    case True
    then show ?thesis
      by (simp add: str_nat.simps [of n] nat_of_str_def digit_val_digit_char)
  next
    case False
    with 1 have ih: "nat_of_str (str_nat (n div 10)) = n div 10" by simp
    have "nat_of_str (str_nat n) =
          10 * nat_of_str (str_nat (n div 10)) + digit_val (digit_char (n mod 10))"
      using False by (simp add: str_nat.simps [of n] nat_of_str_def)
    also have "\<dots> = 10 * (n div 10) + n mod 10"
      by (simp add: ih digit_val_digit_char)
    finally show ?thesis by simp
  qed
qed

lemma str_nat_inj: "str_nat a = str_nat b \<longleftrightarrow> a = b"
  by (metis nat_of_str_str_nat)

lemma str_nat_0: "str_nat 0 = ''0''"
  by code_simp

lemma str_nat_1: "str_nat 1 = ''1''"
  by code_simp

lemma str_nat_Suc_0: "str_nat (Suc 0) = ''1''"
  by code_simp

section \<open>Collection after publication\<close>

lemma publish_all_lookup:
  "publish_all dumps shards arrival r (str_nat k) =
     (if k \<in> set arrival then Some (dumps (shards ! k)) else r (str_nat k))"
  unfolding publish_all_def
  by (induction arrival arbitrary: r) (auto simp: publish_def str_nat_inj)

lemma collect_loop_all:
  assumes "\<forall>k\<in>set ks. \<exists>bs. r (str_nat k) = Some bs \<and> loads bs = Inr (f k)"
  shows "collect_loop loads r ks (lg, sc) =
           Inr (lg @ concat (map (fst \<circ> f) ks), sc @ concat (map (snd \<circ> f) ks))"
  using assms
proof (induction ks arbitrary: lg sc)
  case Nil
  then show ?case by simp
next
  case (Cons k ks)
  from Cons.prems obtain bs where bs: "r (str_nat k) = Some bs" "loads bs = Inr (f k)"
    by auto
  obtain l s where fk: "f k = (l, s)" by (cases "f k")
  have rest: "\<forall>k\<in>set ks. \<exists>bs. r (str_nat k) = Some bs \<and> loads bs = Inr (f k)"
    using Cons.prems by simp
  show ?case
    by (simp add: bs fk Cons.IH [OF rest])
qed

text \<open>
  Claim C1. For every world size \<open>N\<close> and every list of \<open>N\<close> shard results: once every
  rank \<open>0..N-1\<close> has published its result under its key (in any order of arrival, and
  whatever the store held before), \<open>collect\<close> for world size \<open>N\<close> returns the
  concatenation of the ranks' prediction lists, and of their score lists, in ascending
  rank order, and the merged prediction list is as long as the shards together.
  \<open>collect\<close> does not depend on the worker that runs it. The serializer is assumed to
  round-trip.
\<close>

theorem collect_after_publish:
  assumes codec: "\<And>x. loads (dumps x) = Inr x"
    and ranks: "set arrival = {0..<N}"
    and shards: "length shards = N"
  shows "collect loads (publish_all dumps shards arrival r0) N =
           Inr (concat (map fst shards), concat (map snd shards)) \<and>
         length (concat (map fst shards)) = sum_list (map (\<lambda>s. length (fst s)) shards)"
proof -
  let ?r = "publish_all dumps shards arrival r0"
  have "\<forall>k\<in>set [0..<N]. \<exists>bs. ?r (str_nat k) = Some bs \<and> loads bs = Inr (shards ! k)"
    using ranks codec by (auto simp: publish_all_lookup)
  then have "collect loads ?r N =
      Inr (concat (map (fst \<circ> (\<lambda>k. shards ! k)) [0..<N]), concat (map (snd \<circ> (\<lambda>k. shards ! k)) [0..<N]))"
    unfolding collect_def by (simp add: collect_loop_all)
  moreover have "map (fst \<circ> (\<lambda>k. shards ! k)) [0..<N] = map fst shards"
    using shards by (metis map_map map_nth)
  moreover have "map (snd \<circ> (\<lambda>k. shards ! k)) [0..<N] = map snd shards"
    using shards by (metis map_map map_nth)
  ultimately show ?thesis
    by (simp add: length_concat comp_def)
qed

theorem collect_after_publish_witness:
  "(\<forall>x::(nat, int) partial_result. Inr ((\<lambda>y. y) x) = (Inr x :: error + (nat, int) partial_result)) \<and>
   set [1, 0::nat] = {0..<2} \<and>
   length [([[1, 2], [3]], [5]), ([[4::nat]], [6::int])] = 2 \<and>
   collect Inr (publish_all (\<lambda>y. y) [([[1, 2], [3]], [5]), ([[4::nat]], [6::int])] [1, 0] Map.empty) 2
     = Inr ([[1, 2], [3], [4]], [5, 6])"
proof -
  have a: "set [1, 0::nat] = {0..<2}" by auto
  show ?thesis
    using a collect_after_publish [of Inr "\<lambda>y. y" "[1, 0]" 2
        "[([[1, 2], [3]], [5]), ([[4::nat]], [6::int])]" Map.empty, OF _ a]
    by simp
qed

lemma upt_2: "[0..<2] = [0, Suc 0]"
  by (simp add: numeral_2_eq_2)

text \<open>
  Claim C4. Two workers: rank 0 publishes \<open>(["a","b"], [])\<close> and rank 1 publishes
  \<open>(["c"], [])\<close>, in either order. After the barrier \<open>collect\<close> for world size 2, which is
  the same computation on both workers, yields \<open>(["a","b","c"], [])\<close>.
\<close>

theorem two_workers_collect:
  assumes codec: "\<And>x. loads (dumps x) = Inr x"
  shows "collect loads (publish dumps (publish dumps r0 0 ([''a'', ''b''], [])) 1 ([''c''], [])) 2
           = Inr ([''a'', ''b'', ''c''], []) \<and>
         collect loads (publish dumps (publish dumps r0 1 ([''c''], [])) 0 ([''a'', ''b''], [])) 2
           = Inr ([''a'', ''b'', ''c''], [])"
  by (simp add: collect_def upt_2 publish_def str_nat_inj codec)

theorem two_workers_collect_witness:
  "(\<forall>x::(char, int) partial_result. Inr ((\<lambda>y. y) x) = (Inr x :: error + (char, int) partial_result)) \<and>
   collect Inr (publish (\<lambda>y. y) (publish (\<lambda>y. y) Map.empty 0 ([''a'', ''b''], [])) 1 ([''c''], [])) 2
     = (Inr ([''a'', ''b'', ''c''], []) :: error + (char, int) partial_result)"
  using two_workers_collect [of "Inr :: _ \<Rightarrow> error + (char, int) partial_result" "\<lambda>y. y" Map.empty]
  by simp

section \<open>A missing slot\<close>

lemma collect_loop_missing:
  "k \<in> set ks \<Longrightarrow> r (str_nat k) = None \<Longrightarrow> \<exists>e. collect_loop loads r ks acc = Inl e"
proof (induction ks arbitrary: acc)
  case Nil
  then show ?case by simp
next
  case (Cons j ks)
  obtain lg sc where acc: "acc = (lg, sc)" by (cases acc)
  show ?case
  proof (cases "r (str_nat j)")
    case None
    then show ?thesis by (simp add: acc)
  next
    case (Some bs)
    then have kin: "k \<in> set ks" using Cons.prems by auto
    show ?thesis
    proof (cases "loads bs")
      case (Inl e)
      then show ?thesis by (simp add: acc Some)
    next
      case (Inr res)
      obtain l s where res: "res = (l, s)" by (cases res)
      show ?thesis
        using Cons.IH [OF kin Cons.prems(2), of "(lg @ l, sc @ s)"]
        by (simp add: acc Some Inr res)
    qed
  qed
qed

lemma collect_loop_first_missing:
  "\<forall>j\<in>set pre. \<exists>bs x. r (str_nat j) = Some bs \<and> loads bs = Inr x \<Longrightarrow> r (str_nat k) = None \<Longrightarrow>
   collect_loop loads r (pre @ k # post) acc = Inl TypeError"
proof (induction pre arbitrary: acc)
  case Nil
  then show ?case by (cases acc) simp
next
  case (Cons j pre)
  obtain lg sc where acc: "acc = (lg, sc)" by (cases acc)
  from Cons.prems(1) obtain bs l s where j: "r (str_nat j) = Some bs" "loads bs = Inr (l, s)"
    by fastforce
  have "collect_loop loads r (pre @ k # post) (lg @ l, sc @ s) = Inl TypeError"
    using Cons.IH Cons.prems by simp
  then show ?case by (simp add: acc j)
qed

lemma upt_split: "k < n \<Longrightarrow> [0..<n] = [0..<k] @ k # [Suc k..<n]"
  by (metis less_eq_nat.simps(1) upt_add_eq_append upt_conv_Cons le_add_diff_inverse less_imp_le_nat)

text \<open>
  Claim C5. When the key of some rank below the world size is missing from the store,
  \<open>collect\<close> ends in an exception, and \<open>on_evaluate\<close> ends in the same exception:
  no metric record is appended and nothing is tried again. When the slots of all lower
  ranks are present and deserialize, the exception is the \<open>TypeError\<close> of
  \<open>pickle.loads(None)\<close>.
\<close>

theorem missing_key_propagates:
  assumes "rank < world_size" and "r (str_nat rank) = None"
  shows "(\<exists>e. collect loads r world_size = Inl e \<and>
              on_evaluate_collect proc entries loads r world_size metrics = Inl e) \<and>
         ((\<forall>j<rank. \<exists>bs x. r (str_nat j) = Some bs \<and> loads bs = Inr x) \<longrightarrow>
            collect loads r world_size = Inl TypeError)"
proof -
  from assms obtain e where e: "collect loads r world_size = Inl e"
    unfolding collect_def using collect_loop_missing [of rank "[0..<world_size]" r loads] by auto
  then have "on_evaluate_collect proc entries loads r world_size metrics = Inl e"
    by (simp add: on_evaluate_collect_def)
  moreover have "collect loads r world_size = Inl TypeError"
    if "\<forall>j<rank. \<exists>bs x. r (str_nat j) = Some bs \<and> loads bs = Inr x"
    unfolding collect_def upt_split [OF assms(1)]
    by (rule collect_loop_first_missing) (use that assms(2) in auto)
  ultimately show ?thesis using e by blast
qed

theorem missing_key_propagates_witness:
  "(1::nat) < 2 \<and>
   (publish (\<lambda>y. y) Map.empty 0 ([[7::nat]], [] :: int list)) (str_nat 1) = None \<and>
   collect Inr (publish (\<lambda>y. y) Map.empty 0 ([[7::nat]], [] :: int list)) 2 = Inl TypeError \<and>
   on_evaluate_collect \<lparr>task = ''ynat'', compute_metrics = (\<lambda>l (e::unit) s. Inr [(''f1'', 1::int)])\<rparr> ()
      Inr (publish (\<lambda>y. y) Map.empty 0 ([[7::nat]], [] :: int list)) 2 [] = Inl TypeError"
proof -
  let ?r = "publish (\<lambda>y. y) Map.empty 0 ([[7::nat]], [] :: int list)"
  let ?p = "\<lparr>task = ''ynat'', compute_metrics = (\<lambda>(l::nat list list) (e::unit) (s::int list option). Inr [(''f1'', 1::int)])\<rparr>"
  have a: "(1::nat) < 2" by simp
  have b: "?r (str_nat 1) = None" by (simp add: publish_def str_nat_inj)
  have c: "\<forall>j<1::nat. \<exists>bs x. ?r (str_nat j) = Some bs \<and> (Inr bs :: error + (nat, int) partial_result) = Inr x"
    by (simp add: publish_def)
  show ?thesis
    using missing_key_propagates [where rank = 1 and world_size = 2 and r = ?r and proc = ?p
        and entries = "()" and loads = Inr and metrics = "[]", OF a b] a b c
    by auto
qed

section \<open>The shard loop\<close>

lemma eval_loop_ok:
  assumes "\<forall>data\<in>set batches.
             length (sequences (generate (input_ids data) (attention_mask data))) = length (input_ids data)"
  shows "eval_loop task_name generate batches (lg, sc) =
           Inr (lg @ concat (map (\<lambda>data. sequences (generate (input_ids data) (attention_mask data))) batches),
                sc @ (if task_name = ''mrc'' \<or> task_name = ''vinca''
                      then concat (map (\<lambda>data. sequences_scores (generate (input_ids data) (attention_mask data))) batches)
                      else []))"
  using assms
proof (induction batches arbitrary: lg sc)
  case Nil
  then show ?case by simp
next
  case (Cons data rest)
  have rest: "\<forall>data\<in>set rest.
      length (sequences (generate (input_ids data) (attention_mask data))) = length (input_ids data)"
    using Cons.prems by simp
  have here: "length (sequences (generate (input_ids data) (attention_mask data))) = length (input_ids data)"
    using Cons.prems by simp
  show ?case
    by (simp add: Let_def here Cons.IH [OF rest])
qed

lemma length_concat_rows:
  assumes "\<forall>data\<in>set batches. length (f data) = length (input_ids data)"
  shows "length (concat (map f batches)) = sum_list (map (\<lambda>data. length (input_ids data)) batches)"
  using assms by (induction batches) simp_all

text \<open>
  Claim C6. When generation returns exactly one sequence per input row for every batch
  of the shard, the assertion of line 61 holds at every batch: the loop does not end in
  \<open>AssertionError\<close> but returns, from any accumulated lists, with the prediction list
  grown by the generated sequences, whose number is the number of rows of the batches.
  So the prediction list of the published partial result is as long as the shard.
\<close>

theorem shard_loop_lengths:
  assumes one_each: "\<forall>data\<in>set batches.
             length (sequences (generate (input_ids data) (attention_mask data))) = length (input_ids data)"
  shows "(\<exists>all_logits all_scores.
            eval_loop (task proc) generate batches (lg, sc) = Inr (all_logits, all_scores) \<and>
            all_logits = lg @ concat (map (\<lambda>data. sequences (generate (input_ids data) (attention_mask data))) batches) \<and>
            length all_logits = length lg + sum_list (map (\<lambda>data. length (input_ids data)) batches)) \<and>
         (\<exists>all_logits all_scores.
            on_evaluate_publish proc generate batches dumps rank r = Inr (publish dumps r rank (all_logits, all_scores)) \<and>
            length all_logits = sum_list (map (\<lambda>data. length (input_ids data)) batches))"
proof -
  let ?seqs = "concat (map (\<lambda>data. sequences (generate (input_ids data) (attention_mask data))) batches)"
  let ?scs = "if task proc = ''mrc'' \<or> task proc = ''vinca''
              then concat (map (\<lambda>data. sequences_scores (generate (input_ids data) (attention_mask data))) batches)
              else []"
  have len: "length ?seqs = sum_list (map (\<lambda>data. length (input_ids data)) batches)"
    by (rule length_concat_rows [OF one_each])
  have acc: "eval_loop (task proc) generate batches (lg, sc) = Inr (lg @ ?seqs, sc @ ?scs)"
    by (rule eval_loop_ok [OF one_each])
  have "eval_loop (task proc) generate batches ([], []) = Inr ([] @ ?seqs, [] @ ?scs)"
    by (rule eval_loop_ok [OF one_each])
  then have pub: "on_evaluate_publish proc generate batches dumps rank r =
      Inr (publish dumps r rank (?seqs, ?scs))"
    by (simp add: on_evaluate_publish_def)
  from acc len have "\<exists>all_logits all_scores.
      eval_loop (task proc) generate batches (lg, sc) = Inr (all_logits, all_scores) \<and>
      all_logits = lg @ ?seqs \<and>
      length all_logits = length lg + sum_list (map (\<lambda>data. length (input_ids data)) batches)"
    by simp
  moreover from pub len have "\<exists>all_logits all_scores.
      on_evaluate_publish proc generate batches dumps rank r = Inr (publish dumps r rank (all_logits, all_scores)) \<and>
      length all_logits = sum_list (map (\<lambda>data. length (input_ids data)) batches)"
    by blast
  ultimately show ?thesis by blast
qed

theorem shard_loop_lengths_witness:
  "eval_loop ''ynat'' echo two_batches ([], []) = Inr ([[1, 2], [3], [4]], []) \<and>
   length [[1, 2], [3], [4::nat]] = 2 + 1"
proof -
  let ?p = "\<lparr>task = ''ynat'', compute_metrics = (\<lambda>(l::nat list list) (e::unit) (s::int list option). Inr [(''f1'', 1::int)])\<rparr>"
  have h: "\<forall>data\<in>set two_batches.
      length (sequences (echo (input_ids data) (attention_mask data))) = length (input_ids data)"
    by (simp add: two_batches_def echo_def)
  show ?thesis
    using shard_loop_lengths [where proc = ?p and lg = "[]" and sc = "[]", OF h]
    by (simp add: two_batches_def echo_def)
qed

lemma eval_loop_scores:
  "eval_loop task_name generate batches (lg, sc) = Inr (lg', sc') \<Longrightarrow>
   sc' = sc @ (if task_name = ''mrc'' \<or> task_name = ''vinca''
               then concat (map (\<lambda>data. sequences_scores (generate (input_ids data) (attention_mask data))) batches)
               else [])"
proof (induction batches arbitrary: lg sc)
  case Nil
  then show ?case by simp
next
  case (Cons data rest)
  let ?out = "generate (input_ids data) (attention_mask data)"
  let ?sc = "if task_name = ''mrc'' \<or> task_name = ''vinca'' then sc @ sequences_scores ?out else sc"
  from Cons.prems have len: "length (sequences ?out) = length (input_ids data)"
    by (simp add: Let_def split: if_splits)
  with Cons.prems have "eval_loop task_name generate rest (lg @ sequences ?out, ?sc) = Inr (lg', sc')"
    by (simp add: Let_def)
  from Cons.IH [OF this] show ?case
    by (simp split: if_splits)
qed

text \<open>
  Claim C7. A worker that reaches the publication (its loop raised no assertion error)
  publishes the prediction list together with a score list that holds the sequence
  scores of every batch, in order, when the processor's task is \<open>mrc\<close> or \<open>vinca\<close>, and
  that is empty for every other task. So on a shard whose batches produce at least one
  score, the published score list is non-empty exactly for the tasks \<open>mrc\<close> and \<open>vinca\<close>.
\<close>

theorem scores_only_for_mrc_vinca:
  assumes "eval_loop (task proc) generate batches ([], []) = Inr (all_logits, all_scores)"
  shows "on_evaluate_publish proc generate batches dumps rank r = Inr (publish dumps r rank (all_logits, all_scores)) \<and>
         all_scores =
           (if task proc = ''mrc'' \<or> task proc = ''vinca''
            then concat (map (\<lambda>data. sequences_scores (generate (input_ids data) (attention_mask data))) batches)
            else []) \<and>
         (concat (map (\<lambda>data. sequences_scores (generate (input_ids data) (attention_mask data))) batches) \<noteq> [] \<longrightarrow>
            (all_scores \<noteq> [] \<longleftrightarrow> task proc = ''mrc'' \<or> task proc = ''vinca''))"
  using assms eval_loop_scores [OF assms] by (simp add: on_evaluate_publish_def)

theorem scores_only_for_mrc_vinca_witness:
  "eval_loop ''mrc'' echo two_batches ([], []) = Inr ([[1, 2], [3], [4]], [2, 1, 1]) \<and>
   on_evaluate_publish \<lparr>task = ''mrc'', compute_metrics = (\<lambda>(l::nat list list) (e::unit) (s::int list option). Inr [(''f1'', 1::int)])\<rparr>
       echo two_batches (\<lambda>y. y) 0 Map.empty
     = Inr (publish (\<lambda>y. y) Map.empty 0 ([[1, 2], [3], [4]], [2, 1, 1])) \<and>
   eval_loop ''ynat'' echo two_batches ([], []) = Inr ([[1, 2], [3], [4]], []) \<and>
   on_evaluate_publish \<lparr>task = ''ynat'', compute_metrics = (\<lambda>(l::nat list list) (e::unit) (s::int list option). Inr [(''f1'', 1::int)])\<rparr>
       echo two_batches (\<lambda>y. y) 0 Map.empty
     = Inr (publish (\<lambda>y. y) Map.empty 0 ([[1, 2], [3], [4]], []))"
proof -
  let ?m = "\<lparr>task = ''mrc'', compute_metrics = (\<lambda>(l::nat list list) (e::unit) (s::int list option). Inr [(''f1'', 1::int)])\<rparr>"
  let ?y = "\<lparr>task = ''ynat'', compute_metrics = (\<lambda>(l::nat list list) (e::unit) (s::int list option). Inr [(''f1'', 1::int)])\<rparr>"
  have m: "eval_loop (task ?m) echo two_batches ([], []) = Inr ([[1, 2], [3], [4]], [2, 1, 1])"
    by (simp add: two_batches_def echo_def)
  have y: "eval_loop (task ?y) echo two_batches ([], []) = Inr ([[1, 2], [3], [4]], [])"
    by (simp add: two_batches_def echo_def)
  show ?thesis
    using m y
      scores_only_for_mrc_vinca [where proc = ?m and dumps = "\<lambda>y. y" and rank = 0 and r = Map.empty, OF m]
      scores_only_for_mrc_vinca [where proc = ?y and dumps = "\<lambda>y. y" and rank = 0 and r = Map.empty, OF y]
    by simp
qed

section \<open>The scores handed to the metric computation\<close>

text \<open>
  Claim C10. After the merge of all slots, \<open>compute_metrics\<close> is called with the merged
  prediction list, the entries, and as scores \<open>None\<close> when the merged score list is empty
  and the merged score list itself otherwise; its record is appended to the metrics.
  The processor is arbitrary, so the theorem fixes the argument of the call.
\<close>

theorem empty_scores_passed_as_None:
  assumes "collect loads r world_size = Inr (all_logits, all_scores)"
  shows "on_evaluate_collect proc entries loads r world_size metrics =
           (case compute_metrics proc all_logits entries (if all_scores = [] then None else Some all_scores) of
              Inl e \<Rightarrow> Inl e
            | Inr m \<Rightarrow> Inr (metrics @ [m]))"
  using assms by (simp add: on_evaluate_collect_def output_scores_def)

theorem empty_scores_passed_as_None_witness:
  "on_evaluate_collect
     \<lparr>task = ''ynat'',
      compute_metrics = (\<lambda>(l::nat list list) (e::unit) (s::int list option).
         Inr [(''scored'', case s of None \<Rightarrow> 0::int | Some _ \<Rightarrow> 1)])\<rparr>
     () Inr (publish (\<lambda>y. y) Map.empty 0 ([[7]], [])) 1 []
     = Inr [[(''scored'', 0)]] \<and>
   on_evaluate_collect
     \<lparr>task = ''mrc'',
      compute_metrics = (\<lambda>(l::nat list list) (e::unit) (s::int list option).
         Inr [(''scored'', case s of None \<Rightarrow> 0::int | Some _ \<Rightarrow> 1)])\<rparr>
     () Inr (publish (\<lambda>y. y) Map.empty 0 ([[7]], [2])) 1 []
     = Inr [[(''scored'', 1)]]"
proof -
  let ?p = "\<lparr>task = ''ynat'',
      compute_metrics = (\<lambda>(l::nat list list) (e::unit) (s::int list option).
         Inr [(''scored'', case s of None \<Rightarrow> 0::int | Some _ \<Rightarrow> 1)])\<rparr>"
  let ?q = "\<lparr>task = ''mrc'',
      compute_metrics = (\<lambda>(l::nat list list) (e::unit) (s::int list option).
         Inr [(''scored'', case s of None \<Rightarrow> 0::int | Some _ \<Rightarrow> 1)])\<rparr>"
  have a: "collect Inr (publish (\<lambda>y. y) Map.empty 0 ([[7::nat]], [] :: int list)) 1 = Inr ([[7]], [])"
    by (simp add: collect_def publish_def)
  have b: "collect Inr (publish (\<lambda>y. y) Map.empty 0 ([[7::nat]], [2::int])) 1 = Inr ([[7]], [2])"
    by (simp add: collect_def publish_def)
  show ?thesis
    using empty_scores_passed_as_None [where proc = ?p and entries = "()" and metrics = "[]", OF a]
      empty_scores_passed_as_None [where proc = ?q and entries = "()" and metrics = "[]", OF b]
    by simp
qed

section \<open>Best-metric selection\<close>

lemma any_ge_total:
  assumes "set ks \<subseteq> fst ` set metric" and "set ks \<subseteq> fst ` set best"
  shows "any_ge metric best ks =
           Inr (\<exists>k\<in>set ks. \<exists>bv mv. map_of best k = Some bv \<and> map_of metric k = Some mv \<and> mv \<ge> bv)"
  using assms
proof (induction ks)
  case Nil
  then show ?case by simp
next
  case (Cons k ks)
  from Cons.prems obtain mv where mv: "map_of metric k = Some mv"
    by (metis list.set_intros(1) map_of_eq_None_iff not_Some_eq subsetD)
  from Cons.prems obtain bv where bv: "map_of best k = Some bv"
    by (metis list.set_intros(1) map_of_eq_None_iff not_Some_eq subsetD)
  have ih: "any_ge metric best ks =
      Inr (\<exists>k\<in>set ks. \<exists>bv mv. map_of best k = Some bv \<and> map_of metric k = Some mv \<and> mv \<ge> bv)"
    using Cons by simp
  show ?case
    by (simp add: mv bv ih)
qed

text \<open>
  Claim C2. With a current best record \<open>A\<close> and a new record \<open>B\<close> that has a value for
  every key of \<open>A\<close>, the step of the selection loop replaces \<open>A\<close> by \<open>B\<close> when some key of
  \<open>A\<close> has a value in \<open>B\<close> greater than or equal to its value in \<open>A\<close>, and keeps \<open>A\<close>
  otherwise. One such key suffices: in the first record of the witness \<open>acc\<close> falls from
  3 to 1 while \<open>f1\<close> stays at 5, and the new record replaces the best. The order on the
  values is arbitrary.
\<close>

theorem best_replaced_iff_any_ge:
  assumes keys: "fst ` set A \<subseteq> fst ` set B"
  shows "best_step (Some A) B =
           Inr (Some (if \<exists>k\<in>fst ` set A. \<exists>a b. map_of A k = Some a \<and> map_of B k = Some b \<and> b \<ge> a
                      then B else A))"
proof -
  define P where "P \<longleftrightarrow> (\<exists>k\<in>fst ` set A. \<exists>a b. map_of A k = Some a \<and> map_of B k = Some b \<and> b \<ge> a)"
  have "any_ge B A (map fst A) =
      Inr (\<exists>k\<in>set (map fst A). \<exists>a b. map_of A k = Some a \<and> map_of B k = Some b \<and> b \<ge> a)"
    by (rule any_ge_total) (use keys in auto)
  then have "any_ge B A (map fst A) = Inr P"
    by (simp only: P_def set_map)
  then have "best_step (Some A) B = Inr (Some (if P then B else A))"
    by (cases P) (simp_all add: best_step_def)
  then show ?thesis
    by (simp only: P_def)
qed

theorem best_replaced_iff_any_ge_witness:
  "best_step (Some [(''acc'', 3::int), (''f1'', 5)]) [(''acc'', 1), (''f1'', 5)]
     = Inr (Some [(''acc'', 1), (''f1'', 5)]) \<and>
   best_step (Some [(''acc'', 3::int), (''f1'', 5)]) [(''acc'', 1), (''f1'', 4)]
     = Inr (Some [(''acc'', 3), (''f1'', 5)])"
  using best_replaced_iff_any_ge [of "[(''acc'', 3::int), (''f1'', 5)]" "[(''acc'', 1), (''f1'', 5)]"]
    best_replaced_iff_any_ge [of "[(''acc'', 3::int), (''f1'', 5)]" "[(''acc'', 1), (''f1'', 4)]"]
  by simp

lemma str_nat_Suc4: "str_nat (Suc (Suc (Suc (Suc 0)))) = ''4''"
  by code_simp

text \<open>
  Claim C3, as stated, fails. In the run of ten folds in which fold 3 yields
  \<open>{em: 0.80}\<close> and fold 4 yields \<open>{em: 0.79}\<close>, the controller does not keep fold 3's
  record: \<open>best_metric\<close> is set to \<open>None\<close> at line 134 in every fold, so after fold 4 it
  is \<open>{em: 0.79}\<close>, the file written for fold 4 holds \<open>em=0.79\<close>, and at the end of the
  run it is the record of the last fold.
\<close>

theorem cross_fold_counterexample:
  "length em_run = 10 \<and> em_run ! 3 = [[(''em'', 0.80)]] \<and> em_run ! 4 = [[(''em'', 0.79)]] \<and>
   snd (train 0 ''ynat'' fmt_scenario (take 5 em_run)) = Inr \<lparr>i = 5, best_metric = Some [(''em'', 0.79)]\<rparr> \<and>
   snd (train 0 ''ynat'' fmt_scenario em_run) = Inr \<lparr>i = 10, best_metric = Some [(''em'', 0.5)]\<rparr> \<and>
   fst (train 0 ''ynat'' fmt_scenario em_run) ! 4 = (''./models/klue_t5/4/result_ynat.txt'', ''em=0.79'' @ [CHR 0x0A]) \<and>
   [(''em'', 0.79::real)] \<noteq> [(''em'', 0.80)] \<and> [(''em'', 0.5::real)] \<noteq> [(''em'', 0.80)]"
  by (simp add: em_run_def train_def train_fold_def best_step_def fmt_scenario_def
      result_path_def result_text_def output_dir_def str_nat_Suc4)

text \<open>
  Claim C3, amended. The best record is selected per fold. A fold whose one evaluation
  yields \<open>{em: 0.80}\<close> retains \<open>{em: 0.80}\<close> and the next fold, whose one evaluation yields
  \<open>{em: 0.79}\<close>, retains \<open>{em: 0.79}\<close>, whatever the state the earlier folds left. Within
  one fold, evaluations yielding \<open>{em: 0.80}\<close> and then \<open>{em: 0.79}\<close> leave \<open>{em: 0.80}\<close> as
  the fold's best, since the later record's comparison does not succeed. In the run of
  ten folds the retained record is \<open>{em: 0.80}\<close> after fold 3 and \<open>{em: 0.79}\<close> after
  fold 4.
\<close>

theorem best_metric_per_fold:
  "snd (train_fold local_rank task_name fmt [[(''em'', 0.80::real)]] fs st)
     = Inr \<lparr>i = i st + 1, best_metric = Some [(''em'', 0.80)]\<rparr> \<and>
   snd (train_fold local_rank task_name fmt [[(''em'', 0.79::real)]] fs st)
     = Inr \<lparr>i = i st + 1, best_metric = Some [(''em'', 0.79)]\<rparr> \<and>
   snd (train_fold local_rank task_name fmt [[(''em'', 0.80::real)], [(''em'', 0.79)]] fs st)
     = Inr \<lparr>i = i st + 1, best_metric = Some [(''em'', 0.80)]\<rparr> \<and>
   snd (train 0 ''ynat'' fmt_scenario (take 4 em_run)) = Inr \<lparr>i = 4, best_metric = Some [(''em'', 0.80)]\<rparr> \<and>
   snd (train 0 ''ynat'' fmt_scenario (take 5 em_run)) = Inr \<lparr>i = 5, best_metric = Some [(''em'', 0.79)]\<rparr>"
  by (simp add: em_run_def train_def train_fold_def best_step_def)

section \<open>The result file\<close>

lemma train_folds_other_rank:
  "local_rank \<noteq> 0 \<Longrightarrow> fst (train_folds local_rank task_name fmt folds fs st) = fs"
proof (induction folds arbitrary: st)
  case Nil
  then show ?case by simp
next
  case (Cons metrics rest)
  show ?case
  proof (cases "select_best None metrics")
    case (Inl e)
    then show ?thesis using Cons.prems by (simp add: train_fold_def)
  next
    case (Inr best)
    then show ?thesis using Cons by (simp add: train_fold_def)
  qed
qed

lemma train_folds_rank_0:
  "map (select_best None) folds = map (\<lambda>b. Inr (Some b)) bests \<Longrightarrow>
   train_folds 0 task_name fmt folds fs st =
     (fs @ map (\<lambda>(n, b). (result_path n task_name, result_text fmt b)) (zip [i st..<i st + length bests] bests),
      Inr \<lparr>i = i st + length bests, best_metric = (if bests = [] then best_metric st else Some (last bests))\<rparr>)"
proof (induction folds arbitrary: bests fs st)
  case Nil
  then show ?case by simp
next
  case (Cons metrics rest)
  from Cons.prems obtain b bs where bests: "bests = b # bs"
    and b: "select_best None metrics = Inr (Some b)"
    and bs: "map (select_best None) rest = map (\<lambda>b. Inr (Some b)) bs"
    by (cases bests) auto
  have "[i st..<i st + length (b # bs)] = i st # [Suc (i st)..<i st + length (b # bs)]"
    by (rule upt_conv_Cons) simp
  then have upt: "[i st..<i st + length (b # bs)] = i st # [Suc (i st)..<Suc (i st) + length bs]"
    by simp
  let ?st = "\<lparr>i = i st + 1, best_metric = Some b\<rparr>"
  have step: "train_fold 0 task_name fmt metrics fs st =
      (fs @ [(result_path (i st) task_name, result_text fmt b)], Inr ?st)"
    by (simp add: train_fold_def b)
  have "train_folds 0 task_name fmt (metrics # rest) fs st =
      train_folds 0 task_name fmt rest (fs @ [(result_path (i st) task_name, result_text fmt b)]) ?st"
    by (simp add: step)
  also have "\<dots> =
      ((fs @ [(result_path (i st) task_name, result_text fmt b)]) @
         map (\<lambda>(n, b). (result_path n task_name, result_text fmt b)) (zip [i ?st..<i ?st + length bs] bs),
       Inr \<lparr>i = i ?st + length bs, best_metric = (if bs = [] then best_metric ?st else Some (last bs))\<rparr>)"
    by (rule Cons.IH [OF bs])
  finally show ?case
    unfolding bests upt by simp
qed

lemma str_nat_2: "str_nat 2 = ''2''"
  by code_simp

text \<open>
  Claim C8. A worker whose local rank is not 0 writes no result file, whatever the folds
  yield. The worker of local rank 0 writes, for every fold that has a best record, the
  file \<open>result_<task>.txt\<close> in the directory of the fold's number, holding one line
  \<open>key=value\<close> per metric of the fold's best record, and nothing else.
\<close>

theorem result_file_rank_0_only:
  "(local_rank \<noteq> 0 \<longrightarrow> fst (train local_rank task_name fmt folds) = []) \<and>
   (map (select_best None) folds = map (\<lambda>b. Inr (Some b)) bests \<longrightarrow>
      fst (train 0 task_name fmt folds) =
        map (\<lambda>(n, b). (result_path n task_name, result_text fmt b)) (zip [0..<length bests] bests))"
  by (simp add: train_def train_folds_other_rank train_folds_rank_0)

theorem result_file_rank_0_only_witness:
  "fst (train 1 ''ynat'' str_nat [[[(''em'', 1)]], [[(''em'', 2)], [(''em'', 1)]]]) = [] \<and>
   fst (train 0 ''ynat'' str_nat [[[(''em'', 1)]], [[(''em'', 2)], [(''em'', 1)]]]) =
     [(''./models/klue_t5/0/result_ynat.txt'', ''em=1'' @ [CHR 0x0A]),
      (''./models/klue_t5/1/result_ynat.txt'', ''em=2'' @ [CHR 0x0A])]"
proof -
  let ?folds = "[[[(''em'', 1::nat)]], [[(''em'', 2)], [(''em'', 1)]]]"
  have h: "map (select_best None) ?folds = map (\<lambda>b. Inr (Some b)) [[(''em'', 1)], [(''em'', 2)]]"
    by (simp add: best_step_def)
  have z: "zip [0..<2] [[(''em'', 1::nat)], [(''em'', 2)]] = [(0, [(''em'', 1)]), (1, [(''em'', 2)])]"
    by (simp add: upt_rec)
  show ?thesis
    using result_file_rank_0_only [where local_rank = 1 and task_name = "''ynat''" and fmt = str_nat
        and folds = ?folds and bests = "[[(''em'', 1)], [(''em'', 2)]]"] h
    by (simp add: z result_path_def result_text_def output_dir_def str_nat_0 str_nat_1 str_nat_Suc_0 str_nat_2)
qed

end
